theory Spec2Isabelle
  imports Complex_Main "HOL-Library.Sublist" "HOL-Library.Word"
begin

section \<open>Data model\<close>

text \<open>
  The utterance structurer of HSIE (\<^verbatim>\<open>hsie/entrypoint/services/asr_result_structurer.py\<close>)
  and the segment types it reads (\<^verbatim>\<open>hsie/entrypoint/services/asr_service.py\<close>).

  A Python \<^verbatim>\<open>str\<close> is a sequence of Unicode code points; the vocabularies are Japanese,
  and \<^verbatim>\<open>str.strip()\<close> removes Unicode white space (the ideographic space U+3000
  included), so a text is a list of code points rather than a list of bytes. The three
  pause levels are ASCII literals and are kept as HOL strings.

  Times are Python floats (IEEE 754 doubles) in the source. A time is modelled as a
  rational number: comparison, \<^verbatim>\<open>max\<close> and the constraint \<^verbatim>\<open>ge=0.0\<close> do not round, and the
  literals 0.7 and 2.0 of the source are the rationals \<open>7/10\<close> and \<open>2\<close>. Subtraction is the
  one operation of the structurer that rounds, so it is not the subtraction of rationals: it
  is a parameter \<open>fsub\<close> of every function that subtracts, and nothing is assumed of it.
  Every theorem holds whatever the subtraction returns, the rounded difference of the source
  included. The infinities and the non-numbers of IEEE arithmetic are outside this model.
\<close>

type_synonym str = "nat list"

type_synonym UUID = "128 word"

text \<open>The subtraction of two Python floats, \<^verbatim>\<open>a - b\<close> in the source: the difference in
  IEEE 754 double arithmetic, rounded to the nearest double.\<close>

type_synonym float_sub = "rat \<Rightarrow> rat \<Rightarrow> rat"

text \<open>Pydantic raises \<^verbatim>\<open>ValidationError\<close> when a field constraint (\<^verbatim>\<open>ge=0.0\<close>) fails.\<close>

datatype error = ValidationError

text \<open>\<^verbatim>\<open>class ASRSegment(BaseModel)\<close>, frozen. The field names carry the prefix \<open>seg_\<close>
  where \<^verbatim>\<open>UtteranceUnit\<close> has a field of the same name.\<close>

record ASRSegment =
  segment_id :: int
  seg_start_time :: rat
  seg_end_time :: rat
  seg_text :: str
  seg_speaker_id :: "str option"

text \<open>\<^verbatim>\<open>class ASRResult(BaseModel)\<close>; \<open>created_at\<close> is a time stamp, in microseconds.\<close>

record ASRResult =
  asr_id :: UUID
  audio_id :: UUID
  language :: str
  transcript :: str
  segments :: "ASRSegment list"
  created_at :: int
  engine_name :: "str option"
  model_name :: "str option"

text \<open>\<^verbatim>\<open>class UtteranceUnit(BaseModel)\<close>, frozen. The field \<^verbatim>\<open>text\<close> is \<open>utt_text\<close> here.\<close>

record UtteranceUnit =
  utterance_id :: UUID
  speaker_id :: str
  utt_text :: str
  start_time :: rat
  end_time :: rat
  duration :: rat
  confidence :: "rat option"
  pause_before :: rat
  pause_level :: string
  index_in_session :: int

text \<open>The constructors, with the validation of the field constraints:
  \<^verbatim>\<open>start_time\<close> and \<^verbatim>\<open>end_time\<close> have \<^verbatim>\<open>ge=0.0\<close> in both classes, and a unit has
  \<^verbatim>\<open>pause_before\<close> with \<^verbatim>\<open>ge=0.0\<close> and \<^verbatim>\<open>index_in_session\<close> with \<^verbatim>\<open>ge=0\<close>.\<close>

definition valid_segment :: "ASRSegment \<Rightarrow> bool" where
  "valid_segment s \<longleftrightarrow> 0 \<le> seg_start_time s \<and> 0 \<le> seg_end_time s"

definition valid_unit :: "UtteranceUnit \<Rightarrow> bool" where
  "valid_unit u \<longleftrightarrow>
     0 \<le> start_time u \<and> 0 \<le> end_time u \<and> 0 \<le> pause_before u \<and> 0 \<le> index_in_session u"

definition mk_ASRSegment :: "int \<Rightarrow> rat \<Rightarrow> rat \<Rightarrow> str \<Rightarrow> str option \<Rightarrow> error + ASRSegment" where
  "mk_ASRSegment sid st en tx sp =
     (let s = \<lparr>segment_id = sid, seg_start_time = st, seg_end_time = en, seg_text = tx,
                seg_speaker_id = sp\<rparr>
      in if valid_segment s then Inr s else Inl ValidationError)"

definition mk_UtteranceUnit ::
  "UUID \<Rightarrow> str \<Rightarrow> str \<Rightarrow> rat \<Rightarrow> rat \<Rightarrow> rat \<Rightarrow> rat option \<Rightarrow> rat \<Rightarrow> string \<Rightarrow> int
     \<Rightarrow> error + UtteranceUnit" where
  "mk_UtteranceUnit uid sp tx st en du co pb pl ix =
     (let u = \<lparr>utterance_id = uid, speaker_id = sp, utt_text = tx, start_time = st,
                end_time = en, duration = du, confidence = co, pause_before = pb,
                pause_level = pl, index_in_session = ix\<rparr>
      in if valid_unit u then Inr u else Inl ValidationError)"

section \<open>Constants\<close>

definition PAUSE_THRESHOLD_SHORT :: rat where
  "PAUSE_THRESHOLD_SHORT = 7 / 10"

definition PAUSE_THRESHOLD_LONG :: rat where
  "PAUSE_THRESHOLD_LONG = 2"

text \<open>The ten filler words, as code points, in the order of the source.\<close>

definition FILLER_WORDS :: "str set" where
  "FILLER_WORDS =
     {[0x3048, 0x30FC],
      [0x3042, 0x306E],
      [0x305D, 0x306E, 0x30FC],
      [0x3048, 0x3063, 0x3068],
      [0x307E, 0x3042],
      [0x306A, 0x3093, 0x304B],
      [0x305D, 0x306E],
      [0x3042, 0x30FC],
      [0x3046, 0x30FC, 0x3093],
      [0x3093, 0x30FC]}"

text \<open>The nine incomplete endings.\<close>

definition INCOMPLETE_ENDINGS :: "str set" where
  "INCOMPLETE_ENDINGS =
     {[0x3066],
      [0x3067],
      [0x304B, 0x3089],
      [0x306E, 0x3067],
      [0x306E, 0x306B],
      [0x3051, 0x3069],
      [0x304C],
      [0x3051, 0x308C, 0x3069],
      [0x3051, 0x308C, 0x3069, 0x3082]}"

section \<open>Strings\<close>

text \<open>\<^verbatim>\<open>str.isspace\<close> on one code point, and \<^verbatim>\<open>str.strip()\<close> with no argument.\<close>

definition isspace :: "nat \<Rightarrow> bool" where
  "isspace c \<longleftrightarrow>
     (0x9 \<le> c \<and> c \<le> 0xD) \<or> (0x1C \<le> c \<and> c \<le> 0x20) \<or> c = 0x85 \<or> c = 0xA0 \<or> c = 0x1680 \<or>
     (0x2000 \<le> c \<and> c \<le> 0x200A) \<or> c = 0x2028 \<or> c = 0x2029 \<or> c = 0x202F \<or> c = 0x205F \<or>
     c = 0x3000"

definition strip :: "str \<Rightarrow> str" where
  "strip s = rev (dropWhile isspace (rev (dropWhile isspace s)))"

text \<open>The f-string \<^verbatim>\<open>f"{a} {b}"\<close>: the two texts with one ASCII space between them.\<close>

definition join_space :: "str \<Rightarrow> str \<Rightarrow> str" where
  "join_space a b = a @ [0x20] @ b"

section \<open>Predicates and the pause classifier\<close>

definition is_filler_only :: "str \<Rightarrow> bool" where
  "is_filler_only tx \<longleftrightarrow> strip tx \<in> FILLER_WORDS"

definition has_incomplete_ending :: "str \<Rightarrow> bool" where
  "has_incomplete_ending tx \<longleftrightarrow> (\<exists>ending \<in> INCOMPLETE_ENDINGS. suffix ending (strip tx))"

definition is_short_pause :: "rat \<Rightarrow> bool" where
  "is_short_pause pause_duration \<longleftrightarrow> pause_duration < PAUSE_THRESHOLD_SHORT"

definition classify_pause_level :: "rat \<Rightarrow> string" where
  "classify_pause_level pause_duration =
     (if pause_duration < PAUSE_THRESHOLD_SHORT then ''SHORT''
      else if pause_duration < PAUSE_THRESHOLD_LONG then ''NORMAL''
      else ''LONG'')"

section \<open>Combinators\<close>

text \<open>\<^verbatim>\<open>uuid4()\<close> is the one effect of the structurer. The generator is a parameter
  \<open>uuid4\<close>, the identifier that the \<open>n\<close>-th call returns, and the number of calls made so
  far is passed along. The pause before a unit and the durations are differences of floats:
  \<open>fsub a b\<close> is the source's \<^verbatim>\<open>a - b\<close>.\<close>

definition create_utterance_unit ::
  "float_sub \<Rightarrow> (nat \<Rightarrow> UUID) \<Rightarrow> nat \<Rightarrow> ASRSegment \<Rightarrow> str \<Rightarrow> UtteranceUnit list \<Rightarrow> int
     \<Rightarrow> error + (UtteranceUnit \<times> nat)" where
  "create_utterance_unit fsub uuid4 calls seg spk previous_units ix =
     (let pb = (if previous_units \<noteq> []
                then max 0 (fsub (seg_start_time seg) (end_time (last previous_units)))
                else 0);
          pl = classify_pause_level pb;
          du = fsub (seg_end_time seg) (seg_start_time seg);
          uid = uuid4 calls
      in case mk_UtteranceUnit uid spk (seg_text seg) (seg_start_time seg) (seg_end_time seg)
                du None pb pl ix of
           Inl e \<Rightarrow> Inl e
         | Inr u \<Rightarrow> Inr (u, Suc calls))"

definition merge_segments :: "ASRSegment \<Rightarrow> ASRSegment \<Rightarrow> error + ASRSegment" where
  "merge_segments segment1 segment2 =
     (let merged_text = strip (join_space (seg_text segment1) (seg_text segment2));
          merged_start = seg_start_time segment1;
          merged_end = seg_end_time segment2
      in mk_ASRSegment (segment_id segment1) merged_start merged_end merged_text
           (seg_speaker_id segment1))"

definition merge_with_previous ::
  "float_sub \<Rightarrow> UtteranceUnit \<Rightarrow> ASRSegment \<Rightarrow> error + UtteranceUnit" where
  "merge_with_previous fsub previous_unit filler_segment =
     (let merged_text = strip (join_space (utt_text previous_unit) (seg_text filler_segment));
          merged_end = max (end_time previous_unit) (seg_end_time filler_segment);
          merged_duration = fsub merged_end (start_time previous_unit)
      in mk_UtteranceUnit (utterance_id previous_unit) (speaker_id previous_unit) merged_text
           (start_time previous_unit) merged_end merged_duration (confidence previous_unit)
           (pause_before previous_unit) (pause_level previous_unit)
           (index_in_session previous_unit))"

section \<open>The walk\<close>

text \<open>The state of the \<^verbatim>\<open>while\<close> loop of \<^verbatim>\<open>structure\<close>: the units built so far, the
  running \<^verbatim>\<open>index\<close>, the cursor \<^verbatim>\<open>i\<close>, and the number of identifiers drawn.\<close>

type_synonym walk = "UtteranceUnit list \<times> int \<times> nat \<times> nat"

text \<open>One pass through the body of the loop, entered with \<open>i < length segs\<close>.
  \<^verbatim>\<open>utterance_units[-1]\<close> is read and replaced only where the list is not empty, and
  \<^verbatim>\<open>segments[i + 1]\<close> is read only under \<^verbatim>\<open>i + 1 < len(segments)\<close>.\<close>

fun loop_body ::
  "float_sub \<Rightarrow> (nat \<Rightarrow> UUID) \<Rightarrow> ASRSegment list \<Rightarrow> str \<Rightarrow> walk \<Rightarrow> error + walk" where
  "loop_body fsub uuid4 segs spk (units, ix, i, calls) =
     (let current_segment = segs ! i in
      if is_filler_only (seg_text current_segment) \<and> units \<noteq> [] then
        (case merge_with_previous fsub (last units) current_segment of
           Inl e \<Rightarrow> Inl e
         | Inr u \<Rightarrow> Inr (units[length units - 1 := u], ix, i + 1, calls))
      else if i + 1 < length segs
           \<and> \<not> is_filler_only (seg_text (segs ! (i + 1)))
           \<and> has_incomplete_ending (seg_text current_segment)
           \<and> is_short_pause (fsub (seg_start_time (segs ! (i + 1))) (seg_end_time current_segment)) then
        (case merge_segments current_segment (segs ! (i + 1)) of
           Inl e \<Rightarrow> Inl e
         | Inr merged_segment \<Rightarrow>
             (case create_utterance_unit fsub uuid4 calls merged_segment spk units ix of
                Inl e \<Rightarrow> Inl e
              | Inr (u, calls') \<Rightarrow> Inr (units @ [u], ix + 1, i + 2, calls')))
      else
        (case create_utterance_unit fsub uuid4 calls current_segment spk units ix of
           Inl e \<Rightarrow> Inl e
         | Inr (u, calls') \<Rightarrow> Inr (units @ [u], ix + 1, i + 1, calls')))"

declare loop_body.simps [simp del]

function structure_loop ::
  "float_sub \<Rightarrow> (nat \<Rightarrow> UUID) \<Rightarrow> ASRSegment list \<Rightarrow> str \<Rightarrow> walk \<Rightarrow> error + UtteranceUnit list" where
  "structure_loop fsub uuid4 segs spk (units, ix, i, calls) =
     (if i < length segs then
        (case loop_body fsub uuid4 segs spk (units, ix, i, calls) of
           Inl e \<Rightarrow> Inl e
         | Inr w \<Rightarrow> structure_loop fsub uuid4 segs spk w)
      else Inr units)"
  by pat_completeness auto
termination
proof (relation "measure (\<lambda>(fsub, uuid4, segs, spk, units, ix, i, calls). length segs - i)")
  show "wf (measure (\<lambda>(fsub, uuid4, segs, spk, units, ix, i, calls). length segs - i))"
    by simp
next
  fix fsub :: float_sub and uuid4 :: "nat \<Rightarrow> UUID" and segs spk units ix i calls w
  assume "i < length segs" and "loop_body fsub uuid4 segs spk (units, ix, i, calls) = Inr w"
  then show "((fsub, uuid4, segs, spk, w), (fsub, uuid4, segs, spk, units, ix, i, calls))
       \<in> measure (\<lambda>(fsub, uuid4, segs, spk, units, ix, i, calls). length segs - i)"
    by (cases w) (auto simp: loop_body.simps Let_def split: if_splits sum.splits prod.splits)
qed

declare structure_loop.simps [simp del]

text \<open>\<^verbatim>\<open>ASRResultStructurer.structure\<close>. \<^verbatim>\<open>sorted\<close> with a key is stable, as
  \<open>sort_key\<close> is.\<close>

definition structure_asr ::
  "float_sub \<Rightarrow> (nat \<Rightarrow> UUID) \<Rightarrow> ASRResult \<Rightarrow> str \<Rightarrow> error + UtteranceUnit list" where
  "structure_asr fsub uuid4 asr_result spk =
     (let segs = sort_key seg_start_time (segments asr_result) in
      if segs = [] then Inr []
      else structure_loop fsub uuid4 segs spk ([], 0, 0, 0))"

section \<open>Sample transcripts\<close>

text \<open>Segments, results and units for the examples. The speaker is \<^verbatim>\<open>speaker_0\<close>, the
  identifier that the Whisper service gives. The texts, as code points, are
  \<^item> \<open>kyou_wa_hareta_node\<close>, "as it was sunny today", which ends with the incomplete ending
    \<open>node\<close> (U+306E U+3067);
  \<^item> \<open>samukatta_kedo\<close>, "it was cold, but", which ends with the incomplete ending \<open>kedo\<close>
    (U+3051 U+3069);
  \<^item> \<open>dekakemashita\<close>, "went out", and \<open>konnichiwa\<close>, "hello", with no incomplete ending;
  \<^item> \<open>ano\<close> (U+3042 U+306E), a filler word.
  A sample unit has the identifier and the index \<open>n\<close> and the duration \<open>end - start\<close>.

  The samples are run with the subtraction of rationals \<open>(-)\<close> for \<open>fsub\<close>. Every
  difference that a sample run stores in a unit is the same in double arithmetic (the times
  are multiples of \<open>1/4\<close>, or the subtrahend is 0), so the units shown are the units of the
  source. The one difference that is another number in the source, \<open>1.3 - 1.0\<close> in the
  example of the incomplete-ending merge (0.30000000000000004 there), is only compared with
  0.7 and is below it either way.\<close>

definition sample_segment :: "int \<Rightarrow> rat \<Rightarrow> rat \<Rightarrow> str \<Rightarrow> ASRSegment" where
  "sample_segment n st en tx =
     \<lparr>segment_id = n, seg_start_time = st, seg_end_time = en, seg_text = tx,
      seg_speaker_id = None\<rparr>"

definition sample_result :: "ASRSegment list \<Rightarrow> ASRResult" where
  "sample_result ss =
     \<lparr>asr_id = 0, audio_id = 0, language = [0x6A, 0x61], transcript = [], segments = ss,
      created_at = 0, engine_name = None, model_name = None\<rparr>"

definition speaker_0 :: str where
  "speaker_0 = [0x73, 0x70, 0x65, 0x61, 0x6B, 0x65, 0x72, 0x5F, 0x30]"

definition kyou_wa_hareta_node :: str where
  "kyou_wa_hareta_node = [0x4ECA, 0x65E5, 0x306F, 0x6674, 0x308C, 0x305F, 0x306E, 0x3067]"

definition dekakemashita :: str where
  "dekakemashita = [0x51FA, 0x304B, 0x3051, 0x307E, 0x3057, 0x305F]"

definition konnichiwa :: str where
  "konnichiwa = [0x3053, 0x3093, 0x306B, 0x3061, 0x306F]"

definition ano :: str where
  "ano = [0x3042, 0x306E]"

definition samukatta_kedo :: str where
  "samukatta_kedo = [0x5BD2, 0x304B, 0x3063, 0x305F, 0x3051, 0x3069]"

definition sample_unit :: "nat \<Rightarrow> str \<Rightarrow> rat \<Rightarrow> rat \<Rightarrow> rat \<Rightarrow> string \<Rightarrow> UtteranceUnit" where
  "sample_unit n tx st en pb pl =
     \<lparr>utterance_id = of_nat n, speaker_id = speaker_0, utt_text = tx, start_time = st,
      end_time = en, duration = en - st, confidence = None, pause_before = pb,
      pause_level = pl, index_in_session = int n\<rparr>"

definition sample_unsorted :: ASRResult where
  "sample_unsorted = sample_result
     [sample_segment 2 1.5 2 dekakemashita,
      sample_segment 0 0 1 konnichiwa,
      sample_segment 1 1 1.25 ano]"

definition sample_overlap :: ASRResult where
  "sample_overlap = sample_result
     [sample_segment 0 0 2 konnichiwa,
      sample_segment 1 1 3 dekakemashita]"

definition sample_long_pause :: ASRResult where
  "sample_long_pause = sample_result
     [sample_segment 0 0 1 kyou_wa_hareta_node,
      sample_segment 1 3.5 4 dekakemashita]"

definition sample_pair :: "ASRSegment list" where
  "sample_pair =
     [sample_segment 0 0 1 kyou_wa_hareta_node,
      sample_segment 1 1.3 2 dekakemashita]"

definition sample_filler_between :: "ASRSegment list" where
  "sample_filler_between =
     [sample_segment 0 0 1 kyou_wa_hareta_node,
      sample_segment 1 1 1.25 ano,
      sample_segment 2 1.5 2 dekakemashita]"

definition sample_chain :: "ASRSegment list" where
  "sample_chain =
     [sample_segment 0 0 1 kyou_wa_hareta_node,
      sample_segment 1 1.25 2 samukatta_kedo,
      sample_segment 2 2.25 3 dekakemashita]"

text \<open>The equations that evaluate the structurer on a concrete transcript.\<close>

lemmas structurer_eval =
  structure_asr_def structure_loop.simps loop_body.simps Let_def
  create_utterance_unit_def merge_segments_def merge_with_previous_def
  mk_UtteranceUnit_def mk_ASRSegment_def valid_unit_def valid_segment_def
  is_filler_only_def has_incomplete_ending_def is_short_pause_def classify_pause_level_def
  strip_def join_space_def isspace_def FILLER_WORDS_def INCOMPLETE_ENDINGS_def
  PAUSE_THRESHOLD_SHORT_def PAUSE_THRESHOLD_LONG_def suffix_Cons
  sample_segment_def sample_result_def speaker_0_def kyou_wa_hareta_node_def
  dekakemashita_def konnichiwa_def ano_def samukatta_kedo_def

lemmas sample_eval = structurer_eval sample_unit_def sample_unsorted_def sample_overlap_def
  sample_long_pause_def sample_pair_def sample_filler_between_def sample_chain_def

section \<open>What the constructors and combinators return\<close>

lemma mk_UtteranceUnit_Inr:
  "mk_UtteranceUnit uid sp tx st en du co pb pl ix = Inr u \<longleftrightarrow>
     0 \<le> st \<and> 0 \<le> en \<and> 0 \<le> pb \<and> 0 \<le> ix \<and>
     u = \<lparr>utterance_id = uid, speaker_id = sp, utt_text = tx, start_time = st,
          end_time = en, duration = du, confidence = co, pause_before = pb,
          pause_level = pl, index_in_session = ix\<rparr>"
  by (auto simp: mk_UtteranceUnit_def valid_unit_def Let_def)

lemma mk_ASRSegment_Inr:
  "mk_ASRSegment sid st en tx sp = Inr s \<longleftrightarrow>
     0 \<le> st \<and> 0 \<le> en \<and>
     s = \<lparr>segment_id = sid, seg_start_time = st, seg_end_time = en, seg_text = tx,
          seg_speaker_id = sp\<rparr>"
  by (auto simp: mk_ASRSegment_def valid_segment_def Let_def)

lemma create_utterance_unit_Inr:
  "create_utterance_unit fsub uuid4 calls seg spk previous_units ix = Inr (u, c) \<longleftrightarrow>
     valid_segment seg \<and> 0 \<le> ix \<and> c = Suc calls \<and>
     u = \<lparr>utterance_id = uuid4 calls, speaker_id = spk, utt_text = seg_text seg,
          start_time = seg_start_time seg, end_time = seg_end_time seg,
          duration = fsub (seg_end_time seg) (seg_start_time seg), confidence = None,
          pause_before = (if previous_units \<noteq> []
             then max 0 (fsub (seg_start_time seg) (end_time (last previous_units))) else 0),
          pause_level = classify_pause_level (if previous_units \<noteq> []
             then max 0 (fsub (seg_start_time seg) (end_time (last previous_units))) else 0),
          index_in_session = ix\<rparr>"
  by (auto simp: create_utterance_unit_def mk_UtteranceUnit_def valid_unit_def
      valid_segment_def Let_def)

lemma merge_segments_Inr:
  "merge_segments a b = Inr m \<longleftrightarrow>
     0 \<le> seg_start_time a \<and> 0 \<le> seg_end_time b \<and>
     m = \<lparr>segment_id = segment_id a, seg_start_time = seg_start_time a,
          seg_end_time = seg_end_time b,
          seg_text = strip (join_space (seg_text a) (seg_text b)),
          seg_speaker_id = seg_speaker_id a\<rparr>"
  by (auto simp: merge_segments_def mk_ASRSegment_def valid_segment_def Let_def)

lemma merge_with_previous_Inr:
  "merge_with_previous fsub p f = Inr u \<longleftrightarrow>
     0 \<le> start_time p \<and> 0 \<le> max (end_time p) (seg_end_time f) \<and> 0 \<le> pause_before p \<and>
     0 \<le> index_in_session p \<and>
     u = p\<lparr>utt_text := strip (join_space (utt_text p) (seg_text f)),
           end_time := max (end_time p) (seg_end_time f),
           duration := fsub (max (end_time p) (seg_end_time f)) (start_time p)\<rparr>"
  by (auto simp: merge_with_previous_def mk_UtteranceUnit_def valid_unit_def Let_def)

lemma create_utterance_unit_calls:
  "create_utterance_unit fsub uuid4 calls seg spk previous_units ix = Inr (u, c) \<Longrightarrow> c = Suc calls"
  by (simp add: create_utterance_unit_Inr)

lemma create_utterance_unit_valid:
  "valid_segment seg \<Longrightarrow> 0 \<le> ix \<Longrightarrow>
     \<exists>u. create_utterance_unit fsub uuid4 calls seg spk previous_units ix = Inr (u, Suc calls)"
  by (simp add: create_utterance_unit_Inr)

lemma create_utterance_unit_valid_unit:
  "create_utterance_unit fsub uuid4 calls seg spk previous_units ix = Inr (u, c) \<Longrightarrow> valid_unit u"
  by (auto simp: create_utterance_unit_Inr valid_unit_def valid_segment_def)

lemma merge_with_previous_valid:
  "valid_unit p \<Longrightarrow> \<exists>u. merge_with_previous fsub p f = Inr u"
  by (auto simp: merge_with_previous_Inr valid_unit_def max_def)

lemma merge_with_previous_valid_unit:
  "merge_with_previous fsub p f = Inr u \<Longrightarrow> valid_unit u"
  by (auto simp: merge_with_previous_Inr valid_unit_def)

lemma merge_segments_valid:
  "valid_segment a \<Longrightarrow> valid_segment b \<Longrightarrow> \<exists>m. merge_segments a b = Inr m \<and> valid_segment m"
  by (auto simp: merge_segments_Inr valid_segment_def)

lemma merge_with_previous_fields:
  assumes "merge_with_previous fsub p f = Inr u"
  shows "utterance_id u = utterance_id p" and "speaker_id u = speaker_id p"
    and "start_time u = start_time p" and "confidence u = confidence p"
    and "pause_before u = pause_before p" and "pause_level u = pause_level p"
    and "index_in_session u = index_in_session p"
    and "utt_text u = strip (join_space (utt_text p) (seg_text f))"
    and "end_time u = max (end_time p) (seg_end_time f)"
    and "duration u = fsub (end_time u) (start_time u)"
  using assms by (simp_all add: merge_with_previous_Inr)

lemma create_utterance_unit_fields:
  assumes "create_utterance_unit fsub uuid4 calls seg spk previous_units ix = Inr (u, c)"
  shows "utterance_id u = uuid4 calls" and "speaker_id u = spk"
    and "utt_text u = seg_text seg" and "start_time u = seg_start_time seg"
    and "end_time u = seg_end_time seg" and "duration u = fsub (end_time u) (start_time u)"
    and "confidence u = None" and "index_in_session u = ix"
    and "pause_level u = classify_pause_level (pause_before u)"
    and "0 \<le> pause_before u"
    and "previous_units = [] \<Longrightarrow> pause_before u = 0"
    and "previous_units \<noteq> [] \<Longrightarrow>
           pause_before u = max 0 (fsub (seg_start_time seg) (end_time (last previous_units)))"
  using assms by (simp_all add: create_utterance_unit_Inr)

lemma merge_segments_fields:
  assumes "merge_segments a b = Inr m"
  shows "segment_id m = segment_id a" and "seg_start_time m = seg_start_time a"
    and "seg_end_time m = seg_end_time b"
    and "seg_text m = strip (join_space (seg_text a) (seg_text b))"
    and "seg_speaker_id m = seg_speaker_id a"
  using assms by (simp_all add: merge_segments_Inr)

text \<open>No filler word ends with an incomplete ending, so a text with an incomplete ending is
  never a filler.\<close>

lemma incomplete_ending_not_filler:
  "has_incomplete_ending tx \<Longrightarrow> \<not> is_filler_only tx"
  unfolding has_incomplete_ending_def is_filler_only_def FILLER_WORDS_def INCOMPLETE_ENDINGS_def
  by (auto simp: suffix_Cons)

section \<open>Stripping a joined text\<close>

lemma dropWhile_keep:
  "xs \<noteq> [] \<Longrightarrow> \<not> P (hd xs) \<Longrightarrow> dropWhile P (xs @ ys) = xs @ ys"
  by (cases xs) simp_all

lemma lstrip_last:
  "xs \<noteq> [] \<Longrightarrow> \<not> P (last xs) \<Longrightarrow> dropWhile P xs \<noteq> [] \<and> last (dropWhile P xs) = last xs"
  by (induction xs) (auto split: if_splits)

lemma dropWhile_append_last:
  "xs \<noteq> [] \<Longrightarrow> \<not> P (last xs) \<Longrightarrow> dropWhile P (xs @ ys) = dropWhile P xs @ ys"
  by (rule dropWhile_append1 [of "last xs"]) simp_all

lemma strip_join_space:
  assumes a: "a \<noteq> []" "\<not> isspace (last a)" and b: "b \<noteq> []" "\<not> isspace (hd b)"
  shows "strip (join_space a b) = strip a @ [0x20] @ strip b"
proof -
  let ?la = "dropWhile isspace a" and ?rb = "dropWhile isspace (rev b)"
  from a have la: "?la \<noteq> []" "last ?la = last a"
    using lstrip_last [of a isspace] by simp_all
  from b have rb: "rev b \<noteq> []" "\<not> isspace (last (rev b))"
    by (simp_all add: last_rev)
  have "dropWhile isspace (a @ [0x20] @ b) = ?la @ [0x20] @ b"
    using a by (rule dropWhile_append_last)
  moreover have "dropWhile isspace (rev b @ [0x20] @ rev ?la) = ?rb @ [0x20] @ rev ?la"
    using rb by (rule dropWhile_append_last)
  ultimately have "strip (join_space a b) = ?la @ [0x20] @ rev ?rb"
    by (simp add: strip_def join_space_def)
  moreover from la a have "dropWhile isspace (rev ?la) = rev ?la"
    using dropWhile_keep [of "rev ?la" isspace "[]"] by (simp add: hd_rev)
  then have "strip a = ?la"
    by (simp add: strip_def)
  moreover from b have "dropWhile isspace b = b"
    using dropWhile_keep [of b isspace "[]"] by simp
  then have "strip b = rev ?rb"
    by (simp add: strip_def)
  ultimately show ?thesis
    by simp
qed

section \<open>One pass of the loop\<close>

lemma replace_last:
  "xs \<noteq> [] \<Longrightarrow> xs[length xs - Suc 0 := u] = butlast xs @ [u]"
  by (cases xs rule: rev_cases) simp_all

lemma map_replace_last:
  "xs \<noteq> [] \<Longrightarrow> map f (butlast xs) @ [f (last xs)] = map f xs"
  by (cases xs rule: rev_cases) simp_all

lemma hd_replace_last:
  "xs \<noteq> [] \<Longrightarrow> f u = f (last xs) \<Longrightarrow> f (hd (butlast xs @ [u])) = f (hd xs)"
  by (cases xs rule: rev_cases) (simp_all add: hd_append)

lemma loop_body_advances:
  "loop_body fsub uuid4 segs spk (units, ix, i, calls) = Inr (units', ix', i', calls') \<Longrightarrow> i < i'"
  by (auto simp: loop_body.simps Let_def split: if_splits sum.splits prod.splits)

lemma loop_body_absorb:
  "is_filler_only (seg_text (segs ! i)) \<Longrightarrow> units \<noteq> [] \<Longrightarrow>
     loop_body fsub uuid4 segs spk (units, ix, i, calls) =
       (case merge_with_previous fsub (last units) (segs ! i) of
          Inl e \<Rightarrow> Inl e
        | Inr u \<Rightarrow> Inr (butlast units @ [u], ix, Suc i, calls))"
  by (auto simp: loop_body.simps Let_def replace_last split: sum.splits)

lemma loop_body_merge:
  "\<not> (is_filler_only (seg_text (segs ! i)) \<and> units \<noteq> []) \<Longrightarrow> Suc i < length segs \<Longrightarrow>
     \<not> is_filler_only (seg_text (segs ! Suc i)) \<Longrightarrow>
     has_incomplete_ending (seg_text (segs ! i)) \<Longrightarrow>
     is_short_pause (fsub (seg_start_time (segs ! Suc i)) (seg_end_time (segs ! i))) \<Longrightarrow>
     loop_body fsub uuid4 segs spk (units, ix, i, calls) =
       (case merge_segments (segs ! i) (segs ! Suc i) of
          Inl e \<Rightarrow> Inl e
        | Inr m \<Rightarrow>
            (case create_utterance_unit fsub uuid4 calls m spk units ix of
               Inl e \<Rightarrow> Inl e
             | Inr (u, c) \<Rightarrow> Inr (units @ [u], ix + 1, Suc (Suc i), c)))"
  by (auto simp: loop_body.simps Let_def split: sum.splits)

lemma loop_body_normal:
  "\<not> (is_filler_only (seg_text (segs ! i)) \<and> units \<noteq> []) \<Longrightarrow>
     \<not> (Suc i < length segs \<and> \<not> is_filler_only (seg_text (segs ! Suc i)) \<and>
        has_incomplete_ending (seg_text (segs ! i)) \<and>
        is_short_pause (fsub (seg_start_time (segs ! Suc i)) (seg_end_time (segs ! i)))) \<Longrightarrow>
     loop_body fsub uuid4 segs spk (units, ix, i, calls) =
       (case create_utterance_unit fsub uuid4 calls (segs ! i) spk units ix of
          Inl e \<Rightarrow> Inl e
        | Inr (u, c) \<Rightarrow> Inr (units @ [u], ix + 1, Suc i, c))"
  by (auto simp: loop_body.simps Let_def split: sum.splits)

lemma loop_body_cases [consumes 1, case_names absorb merge normal]:
  assumes "loop_body fsub uuid4 segs spk (units, ix, i, calls) = Inr w'"
  obtains
    (absorb) u where "is_filler_only (seg_text (segs ! i))" and "units \<noteq> []"
      and "merge_with_previous fsub (last units) (segs ! i) = Inr u"
      and "w' = (butlast units @ [u], ix, Suc i, calls)"
  | (merge) m u where "Suc i < length segs"
      and "\<not> is_filler_only (seg_text (segs ! Suc i))"
      and "has_incomplete_ending (seg_text (segs ! i))"
      and "is_short_pause (fsub (seg_start_time (segs ! Suc i)) (seg_end_time (segs ! i)))"
      and "merge_segments (segs ! i) (segs ! Suc i) = Inr m"
      and "create_utterance_unit fsub uuid4 calls m spk units ix = Inr (u, Suc calls)"
      and "w' = (units @ [u], ix + 1, Suc (Suc i), Suc calls)"
  | (normal) u where "\<not> (is_filler_only (seg_text (segs ! i)) \<and> units \<noteq> [])"
      and "create_utterance_unit fsub uuid4 calls (segs ! i) spk units ix = Inr (u, Suc calls)"
      and "w' = (units @ [u], ix + 1, Suc i, Suc calls)"
proof (cases "is_filler_only (seg_text (segs ! i)) \<and> units \<noteq> []")
  case True
  with assms show ?thesis
    by (auto simp: loop_body.simps replace_last split: sum.splits intro: absorb)
next
  case nofill: False
  show ?thesis
  proof (cases "i + 1 < length segs
           \<and> \<not> is_filler_only (seg_text (segs ! (i + 1)))
           \<and> has_incomplete_ending (seg_text (segs ! i))
           \<and> is_short_pause (fsub (seg_start_time (segs ! (i + 1))) (seg_end_time (segs ! i)))")
    case True
    with assms nofill obtain m u c
      where m: "merge_segments (segs ! i) (segs ! Suc i) = Inr m"
        and u: "create_utterance_unit fsub uuid4 calls m spk units ix = Inr (u, c)"
        and w': "w' = (units @ [u], ix + 1, Suc (Suc i), c)"
      by (auto simp: loop_body.simps split: sum.splits)
    from u have "c = Suc calls"
      by (rule create_utterance_unit_calls)
    with True m u w' show ?thesis
      by (intro merge [of m u]) simp_all
  next
    case False
    with assms nofill obtain u c
      where u: "create_utterance_unit fsub uuid4 calls (segs ! i) spk units ix = Inr (u, c)"
        and w': "w' = (units @ [u], ix + 1, Suc i, c)"
      by (auto simp: loop_body.simps split: sum.splits)
    from u have "c = Suc calls"
      by (rule create_utterance_unit_calls)
    with nofill u w' show ?thesis
      by (intro normal [of u]) simp_all
  qed
qed

lemma loop_body_progress:
  assumes segs: "\<forall>s \<in> set segs. valid_segment s"
    and units: "\<forall>u \<in> set units. valid_unit u" and ix: "0 \<le> ix" and i: "i < length segs"
  shows "\<exists>w'. loop_body fsub uuid4 segs spk (units, ix, i, calls) = Inr w'"
proof (cases "is_filler_only (seg_text (segs ! i)) \<and> units \<noteq> []")
  case True
  then have "valid_unit (last units)"
    using units by simp
  then obtain u where "merge_with_previous fsub (last units) (segs ! i) = Inr u"
    using merge_with_previous_valid by blast
  with True show ?thesis
    by (simp add: loop_body_absorb)
next
  case nofill: False
  from segs i have cur: "valid_segment (segs ! i)"
    by simp
  show ?thesis
  proof (cases "Suc i < length segs \<and> \<not> is_filler_only (seg_text (segs ! Suc i)) \<and>
        has_incomplete_ending (seg_text (segs ! i)) \<and>
        is_short_pause (fsub (seg_start_time (segs ! Suc i)) (seg_end_time (segs ! i)))")
    case True
    with segs have "valid_segment (segs ! Suc i)"
      by simp
    with cur obtain m where m: "merge_segments (segs ! i) (segs ! Suc i) = Inr m"
      and "valid_segment m"
      using merge_segments_valid by blast
    with ix obtain u where "create_utterance_unit fsub uuid4 calls m spk units ix = Inr (u, Suc calls)"
      using create_utterance_unit_valid by blast
    with True nofill m show ?thesis
      by (simp add: loop_body_merge)
  next
    case False
    from cur ix obtain u
      where "create_utterance_unit fsub uuid4 calls (segs ! i) spk units ix = Inr (u, Suc calls)"
      using create_utterance_unit_valid by blast
    with loop_body_normal [of segs i units fsub, OF nofill False] show ?thesis
      by simp
  qed
qed

lemma loop_body_valid:
  assumes "loop_body fsub uuid4 segs spk (units, ix, i, calls) = Inr (units', ix', i', calls')"
    and "\<forall>u \<in> set units. valid_unit u" and "0 \<le> ix"
  shows "(\<forall>u \<in> set units'. valid_unit u) \<and> 0 \<le> ix'"
  using assms(1)
proof (cases rule: loop_body_cases)
  case (absorb u)
  with assms(2,3) show ?thesis
    by (auto dest: in_set_butlastD merge_with_previous_valid_unit)
next
  case (merge m u)
  with assms(2,3) show ?thesis
    by (auto dest: create_utterance_unit_valid_unit)
next
  case (normal u)
  with assms(2,3) show ?thesis
    by (auto dest: create_utterance_unit_valid_unit)
qed

section \<open>Invariants of the walk\<close>

text \<open>A property that every pass preserves holds of the state in which the loop stops; and
  on valid segments every pass succeeds, so the loop returns a list of units.\<close>

lemma structure_loop_step:
  "i < length segs \<Longrightarrow> loop_body fsub uuid4 segs spk (units, ix, i, calls) = Inr w \<Longrightarrow>
     structure_loop fsub uuid4 segs spk (units, ix, i, calls) = structure_loop fsub uuid4 segs spk w"
  by (simp add: structure_loop.simps)

lemma structure_loop_rule:
  assumes step: "\<And>units ix i calls w'. P (units, ix, i, calls) \<Longrightarrow> i < length segs \<Longrightarrow>
       loop_body fsub uuid4 segs spk (units, ix, i, calls) = Inr w' \<Longrightarrow> P w'"
  shows "structure_loop fsub uuid4 segs spk (units, ix, i, calls) = Inr us \<Longrightarrow>
     P (units, ix, i, calls) \<Longrightarrow> \<exists>ix' i' calls'. P (us, ix', i', calls') \<and> length segs \<le> i'"
proof (induction "length segs - i" arbitrary: units ix i calls rule: less_induct)
  case less
  show ?case
  proof (cases "i < length segs")
    case True
    with less.prems(1) obtain w' where w': "loop_body fsub uuid4 segs spk (units, ix, i, calls) = Inr w'"
      and run: "structure_loop fsub uuid4 segs spk w' = Inr us"
      by (auto simp: structure_loop.simps split: sum.splits)
    obtain units' ix' i' calls' where eq: "w' = (units', ix', i', calls')"
      by (cases w') auto
    from w' eq have "i < i'"
      by (auto dest: loop_body_advances)
    with True have dec: "length segs - i' < length segs - i"
      by simp
    from step [OF less.prems(2) True w'] eq have "P (units', ix', i', calls')"
      by simp
    from less.hyps [OF dec _ this] run eq show ?thesis
      by simp
  next
    case False
    with less.prems(1) have "units = us"
      by (simp add: structure_loop.simps)
    with less.prems(2) False show ?thesis
      by (intro exI [of _ ix] exI [of _ i] exI [of _ calls]) simp
  qed
qed

lemma structure_loop_returns:
  assumes segs: "\<forall>s \<in> set segs. valid_segment s"
  shows "\<forall>u \<in> set units. valid_unit u \<Longrightarrow> 0 \<le> ix \<Longrightarrow>
     \<exists>us. structure_loop fsub uuid4 segs spk (units, ix, i, calls) = Inr us"
proof (induction "length segs - i" arbitrary: units ix i calls rule: less_induct)
  case less
  show ?case
  proof (cases "i < length segs")
    case True
    from loop_body_progress [OF segs less.prems True]
    obtain w' where w': "loop_body fsub uuid4 segs spk (units, ix, i, calls) = Inr w'"
      by blast
    obtain units' ix' i' calls' where eq: "w' = (units', ix', i', calls')"
      by (cases w') auto
    from w' eq have "i < i'"
      by (auto dest: loop_body_advances)
    with True have dec: "length segs - i' < length segs - i"
      by simp
    from loop_body_valid [OF w' [unfolded eq] less.prems]
    have "\<forall>u \<in> set units'. valid_unit u" and "0 \<le> ix'"
      by simp_all
    from less.hyps [OF dec this]
    obtain us where "structure_loop fsub uuid4 segs spk (units', ix', i', calls') = Inr us"
      by blast
    with True w' eq show ?thesis
      by (simp add: structure_loop.simps)
  next
    case False
    then show ?thesis
      by (simp add: structure_loop.simps)
  qed
qed

lemma structure_asr_rule:
  assumes valid: "list_all valid_segment (segments r)"
    and init: "P ([], 0, 0, 0)"
    and step: "\<And>units ix i calls w'. P (units, ix, i, calls) \<Longrightarrow> i < length (segments r) \<Longrightarrow>
       loop_body fsub uuid4 (sort_key seg_start_time (segments r)) spk (units, ix, i, calls) = Inr w'
       \<Longrightarrow> P w'"
  shows "\<exists>us ix i calls. structure_asr fsub uuid4 r spk = Inr us \<and> P (us, ix, i, calls) \<and>
     length (segments r) \<le> i"
proof (cases "segments r = []")
  case True
  with init show ?thesis
    by (auto simp: structure_asr_def)
next
  case False
  define segs where "segs = sort_key seg_start_time (segments r)"
  have len: "length segs = length (segments r)"
    by (simp add: segs_def)
  from valid have "\<forall>s \<in> set segs. valid_segment s"
    by (simp add: segs_def list_all_iff)
  then obtain us where us: "structure_loop fsub uuid4 segs spk ([], 0, 0, 0) = Inr us"
    using structure_loop_returns [of segs "[]" 0 fsub uuid4 spk 0 0] by auto
  have "\<exists>ix' i' calls'. P (us, ix', i', calls') \<and> length segs \<le> i'"
  proof (rule structure_loop_rule [where P = P, OF _ us init])
    fix units ix i calls w'
    assume "P (units, ix, i, calls)" and "i < length segs"
      and "loop_body fsub uuid4 segs spk (units, ix, i, calls) = Inr w'"
    then show "P w'"
      using step [of units ix i calls w'] by (simp add: segs_def)
  qed
  moreover from False len have "segs \<noteq> []"
    by auto
  with us have "structure_asr fsub uuid4 r spk = Inr us"
    by (simp add: structure_asr_def segs_def Let_def)
  ultimately show ?thesis
    using len by auto
qed

lemma loop_body_index:
  assumes "loop_body fsub uuid4 segs spk (units, ix, i, calls) = Inr (units', ix', i', calls')"
    and "ix = int (length units)"
    and "map index_in_session units = map int [0..<length units]"
  shows "ix' = int (length units') \<and> map index_in_session units' = map int [0..<length units']"
  using assms(1)
proof (cases rule: loop_body_cases)
  case (absorb u)
  with assms(2,3) show ?thesis
    by (simp add: map_replace_last merge_with_previous_fields)
next
  case (merge m u)
  with assms(2,3) show ?thesis
    by (simp add: create_utterance_unit_fields)
next
  case (normal u)
  with assms(2,3) show ?thesis
    by (simp add: create_utterance_unit_fields)
qed

lemma loop_body_sorted:
  assumes "loop_body fsub uuid4 segs spk (units, ix, i, calls) = Inr (units', ix', i', calls')"
    and "i < length segs"
    and "sorted (map start_time units @ map seg_start_time (drop i segs))"
  shows "sorted (map start_time units' @ map seg_start_time (drop i' segs))"
  using assms(1)
proof (cases rule: loop_body_cases)
  case (absorb u)
  then have "map start_time units' = map start_time units" and "i' = Suc i"
    by (simp_all add: map_replace_last merge_with_previous_fields)
  with assms(2,3) show ?thesis
    by (auto simp: sorted_append Cons_nth_drop_Suc [symmetric])
next
  case (merge m u)
  then have "start_time u = seg_start_time (segs ! i)"
    by (simp add: create_utterance_unit_fields merge_segments_fields)
  with merge assms(2,3) show ?thesis
    by (auto simp: sorted_append Cons_nth_drop_Suc [symmetric])
next
  case (normal u)
  then have "start_time u = seg_start_time (segs ! i)"
    by (simp add: create_utterance_unit_fields)
  with normal assms(2,3) show ?thesis
    by (auto simp: sorted_append Cons_nth_drop_Suc [symmetric])
qed

lemma loop_body_pause_level:
  assumes "loop_body fsub uuid4 segs spk (units, ix, i, calls) = Inr (units', ix', i', calls')"
    and "\<forall>u \<in> set units. pause_level u = classify_pause_level (pause_before u)"
  shows "\<forall>u \<in> set units'. pause_level u = classify_pause_level (pause_before u)"
  using assms(1)
proof (cases rule: loop_body_cases)
  case (absorb u)
  with assms(2) show ?thesis
    by (auto dest: in_set_butlastD simp: merge_with_previous_fields)
next
  case (merge m u)
  with assms(2) show ?thesis
    by (auto simp: create_utterance_unit_fields)
next
  case (normal u)
  with assms(2) show ?thesis
    by (auto simp: create_utterance_unit_fields)
qed

lemma loop_body_pause_before:
  assumes "loop_body fsub uuid4 segs spk (units, ix, i, calls) = Inr (units', ix', i', calls')"
    and "\<forall>u \<in> set units. 0 \<le> pause_before u"
    and "units \<noteq> [] \<longrightarrow> pause_before (hd units) = 0"
  shows "(\<forall>u \<in> set units'. 0 \<le> pause_before u) \<and> units' \<noteq> [] \<and> pause_before (hd units') = 0"
  using assms(1)
proof (cases rule: loop_body_cases)
  case (absorb u)
  with assms(2,3) show ?thesis
    by (auto dest: in_set_butlastD simp: merge_with_previous_fields hd_replace_last)
next
  case (merge m u)
  with assms(2,3) show ?thesis
    by (cases "units = []") (auto simp: create_utterance_unit_fields)
next
  case (normal u)
  with assms(2,3) show ?thesis
    by (cases "units = []") (auto simp: create_utterance_unit_fields)
qed

lemma loop_body_first_unit:
  assumes "loop_body fsub uuid4 segs spk (units, ix, i, calls) = Inr (units', ix', i', calls')"
    and "(units = [] \<and> i = 0 \<and> calls = 0) \<or>
         (units \<noteq> [] \<and> utterance_id (hd units) = uuid4 0 \<and>
          start_time (hd units) = seg_start_time (segs ! 0))"
  shows "units' \<noteq> [] \<and> utterance_id (hd units') = uuid4 0 \<and>
     start_time (hd units') = seg_start_time (segs ! 0)"
  using assms(1)
proof (cases rule: loop_body_cases)
  case (absorb u)
  with assms(2) show ?thesis
    by (auto simp: merge_with_previous_fields hd_replace_last)
next
  case (merge m u)
  with assms(2) show ?thesis
    by (cases "units = []") (auto simp: create_utterance_unit_fields merge_segments_fields)
next
  case (normal u)
  with assms(2) show ?thesis
    by (cases "units = []") (auto simp: create_utterance_unit_fields)
qed

section \<open>Order and indices\<close>

text \<open>C1: for every list of (valid) segments and every speaker, \<open>structure\<close> returns a
  list of units whose start times are non-decreasing and whose \<open>index_in_session\<close> values
  are exactly \<open>0, 1, \<dots>, n - 1\<close> in list order.\<close>

theorem structure_ordering:
  assumes "list_all valid_segment (segments asr_result)"
  shows "\<exists>us. structure_asr fsub uuid4 asr_result spk = Inr us \<and>
     sorted (map start_time us) \<and>
     map index_in_session us = map int [0..<length us]"
proof -
  define segs where "segs = sort_key seg_start_time (segments asr_result)"
  define P :: "walk \<Rightarrow> bool" where "P = (\<lambda>(units, ix, i, calls).
     ix = int (length units) \<and> map index_in_session units = map int [0..<length units] \<and>
     sorted (map start_time units @ map seg_start_time (drop i segs)))"
  have init: "P ([], 0, 0, 0)"
    by (simp add: P_def segs_def)
  have step: "P w'" if "P (units, ix, i, calls)" and "i < length (segments asr_result)"
    and "loop_body fsub uuid4 (sort_key seg_start_time (segments asr_result)) spk
           (units, ix, i, calls) = Inr w'" for units ix i calls w'
  proof -
    obtain units' ix' i' calls' where w': "w' = (units', ix', i', calls')"
      by (cases w') auto
    from that w' have body: "loop_body fsub uuid4 segs spk (units, ix, i, calls)
        = Inr (units', ix', i', calls')" and i: "i < length segs"
      by (simp_all add: segs_def)
    from that(1) loop_body_index [OF body] loop_body_sorted [OF body i]
    show ?thesis
      by (simp add: P_def w')
  qed
  have "\<exists>us ix i calls. structure_asr fsub uuid4 asr_result spk = Inr us \<and> P (us, ix, i, calls) \<and>
     length (segments asr_result) \<le> i"
    by (rule structure_asr_rule [of asr_result P fsub uuid4 spk, OF assms init]) (erule (2) step)
  then obtain us ix i calls where "structure_asr fsub uuid4 asr_result spk = Inr us"
    and "P (us, ix, i, calls)" and "length (segments asr_result) \<le> i"
    by blast
  then show ?thesis
    by (auto simp: P_def segs_def)
qed

text \<open>An unsorted transcript with a filler in it.\<close>

theorem structure_ordering_witness:
  "list_all valid_segment (segments sample_unsorted) \<and>
   structure_asr (-) of_nat sample_unsorted speaker_0 =
     Inr [sample_unit 0 (konnichiwa @ [0x20] @ ano) 0 1.25 0 ''SHORT'',
          sample_unit 1 dekakemashita 1.5 2 0.25 ''SHORT''] \<and>
   (\<exists>us. structure_asr (-) of_nat sample_unsorted speaker_0 = Inr us \<and>
      sorted (map start_time us) \<and>
      map index_in_session us = map int [0..<length us])"
  using structure_ordering [of sample_unsorted "(-)" of_nat speaker_0]
  by (simp add: sample_eval)

section \<open>Merging a filler into the unit before it\<close>




section \<open>Merging two segments\<close>

text \<open>C3, as the code has it: on valid segments \<open>merge_segments\<close> returns a segment with the
  identifier, start and speaker of the first, the end of the second, and the text
  \<open>strip (a + " " + b)\<close>: the joined text is stripped once, the two texts are not stripped
  before they are joined. Where the first text does not end and the second does not begin with
  white space (both non-empty), this is \<open>strip a + " " + strip b\<close>.\<close>

theorem merge_segments_result:
  assumes "valid_segment a" and "valid_segment b"
  shows "\<exists>m. merge_segments a b = Inr m \<and>
     seg_text m = strip (join_space (seg_text a) (seg_text b)) \<and>
     seg_start_time m = seg_start_time a \<and> seg_end_time m = seg_end_time b \<and>
     segment_id m = segment_id a \<and> seg_speaker_id m = seg_speaker_id a \<and>
     (seg_text a \<noteq> [] \<and> \<not> isspace (last (seg_text a)) \<and>
      seg_text b \<noteq> [] \<and> \<not> isspace (hd (seg_text b)) \<longrightarrow>
        seg_text m = strip (seg_text a) @ [0x20] @ strip (seg_text b))"
proof -
  from assms obtain m where m: "merge_segments a b = Inr m"
    using merge_segments_valid by blast
  then show ?thesis
    by (auto simp: merge_segments_fields strip_join_space)
qed

text \<open>The two segments of the incomplete-ending example.\<close>

theorem merge_segments_result_witness:
  "valid_segment (sample_pair ! 0) \<and> valid_segment (sample_pair ! 1) \<and>
   merge_segments (sample_pair ! 0) (sample_pair ! 1) =
     Inr (sample_segment 0 0 2 (kyou_wa_hareta_node @ [0x20] @ dekakemashita))"
  using merge_segments_result [of "sample_pair ! 0" "sample_pair ! 1"]
  by (simp add: sample_eval)

text \<open>C3 as stated fails on a first text with a trailing space: the merged text keeps it, so
  two spaces separate the texts, where the two texts stripped and joined have one.\<close>

theorem merge_segments_trim_counterexample:
  "merge_segments (sample_segment 0 0 1 (kyou_wa_hareta_node @ [0x20]))
       (sample_segment 1 1.3 2 dekakemashita) =
     Inr (sample_segment 0 0 2 (kyou_wa_hareta_node @ [0x20, 0x20] @ dekakemashita)) \<and>
   strip (kyou_wa_hareta_node @ [0x20]) @ [0x20] @ strip dekakemashita =
     kyou_wa_hareta_node @ [0x20] @ dekakemashita"
  by (simp add: sample_eval)

section \<open>Absorbing a filler\<close>

text \<open>C4, as the code has it: on a valid unit \<open>merge_with_previous\<close> returns a unit with the
  same identifier, speaker, start, pause, pause level, index and confidence, the end
  \<open>max (end u) (end f)\<close>, the duration \<open>end - start\<close>, and the text
  \<open>strip (text u + " " + text f)\<close>, stripped once after joining. Where the unit's text does not
  end and the filler's text does not begin with white space (both non-empty), this is
  \<open>strip (text u) + " " + strip (text f)\<close>.\<close>

theorem merge_with_previous_result:
  assumes "valid_unit u"
  shows "\<exists>u'. merge_with_previous fsub u f = Inr u' \<and>
     utterance_id u' = utterance_id u \<and> speaker_id u' = speaker_id u \<and>
     start_time u' = start_time u \<and> pause_before u' = pause_before u \<and>
     pause_level u' = pause_level u \<and> index_in_session u' = index_in_session u \<and>
     confidence u' = confidence u \<and>
     utt_text u' = strip (join_space (utt_text u) (seg_text f)) \<and>
     end_time u' = max (end_time u) (seg_end_time f) \<and>
     duration u' = fsub (end_time u') (start_time u') \<and>
     (utt_text u \<noteq> [] \<and> \<not> isspace (last (utt_text u)) \<and>
      seg_text f \<noteq> [] \<and> \<not> isspace (hd (seg_text f)) \<longrightarrow>
        utt_text u' = strip (utt_text u) @ [0x20] @ strip (seg_text f))"
proof -
  from assms obtain u' where u': "merge_with_previous fsub u f = Inr u'"
    using merge_with_previous_valid by blast
  then show ?thesis
    by (auto simp: merge_with_previous_fields strip_join_space)
qed

text \<open>The filler-absorption example: a greeting at 0.0--1.0 and a filler at 1.0--1.2.\<close>

theorem merge_with_previous_result_witness:
  "valid_unit (sample_unit 0 konnichiwa 0 1 0 ''SHORT'') \<and>
   merge_with_previous (-) (sample_unit 0 konnichiwa 0 1 0 ''SHORT'') (sample_segment 1 1 1.2 ano) =
     Inr (sample_unit 0 (konnichiwa @ [0x20] @ ano) 0 1.2 0 ''SHORT'')"
  using merge_with_previous_result [of "sample_unit 0 konnichiwa 0 1 0 ''SHORT''" "(-)"
      "sample_segment 1 1 1.2 ano"]
  by (simp add: sample_eval)

text \<open>C4 as stated fails on a filler segment whose text begins with a space (it is
  filler-only, since the test strips it): the absorbed text has two spaces.\<close>

theorem merge_with_previous_trim_counterexample:
  "is_filler_only ([0x20] @ ano) \<and>
   merge_with_previous (-) (sample_unit 0 konnichiwa 0 1 0 ''SHORT'')
       (sample_segment 1 1 1.2 ([0x20] @ ano)) =
     Inr (sample_unit 0 (konnichiwa @ [0x20, 0x20] @ ano) 0 1.2 0 ''SHORT'') \<and>
   strip konnichiwa @ [0x20] @ strip ([0x20] @ ano) = konnichiwa @ [0x20] @ ano"
  by (simp add: sample_eval)

section \<open>Merging after an incomplete ending\<close>

text \<open>C5, as the code has it: when the walk is at segment \<open>i\<close>, its text has an incomplete
  ending, segment \<open>i + 1\<close> exists and is not filler-only, and the gap between them, the
  difference \<open>start (i + 1) - end i\<close> as the source computes it in floats, is below 0.7, the
  pass appends one unit built from both segments (start of \<open>i\<close>, end of \<open>i + 1\<close>, text
  \<open>strip (text i + " " + text (i + 1))\<close>, the current index), and the walk goes on at
  \<open>i + 2\<close> with the index increased by one. The gap is the value of \<open>fsub\<close>: where the
  rounded difference is 0.7 or more the hypothesis fails, as the test of the source does,
  whatever the exact difference is.\<close>

theorem incomplete_ending_merge_step:
  assumes nxt: "Suc i < length segs"
    and valid: "valid_segment (segs ! i)" "valid_segment (segs ! Suc i)" and ix: "0 \<le> ix"
    and ending: "has_incomplete_ending (seg_text (segs ! i))"
    and nofill: "\<not> is_filler_only (seg_text (segs ! Suc i))"
    and gap: "fsub (seg_start_time (segs ! Suc i)) (seg_end_time (segs ! i)) < 0.7"
  shows "\<exists>u. loop_body fsub uuid4 segs spk (units, ix, i, calls)
         = Inr (units @ [u], ix + 1, i + 2, Suc calls) \<and>
     structure_loop fsub uuid4 segs spk (units, ix, i, calls)
         = structure_loop fsub uuid4 segs spk (units @ [u], ix + 1, i + 2, Suc calls) \<and>
     utt_text u = strip (join_space (seg_text (segs ! i)) (seg_text (segs ! Suc i))) \<and>
     start_time u = seg_start_time (segs ! i) \<and>
     end_time u = seg_end_time (segs ! Suc i) \<and>
     duration u = fsub (seg_end_time (segs ! Suc i)) (seg_start_time (segs ! i)) \<and>
     index_in_session u = ix \<and> utterance_id u = uuid4 calls"
proof -
  from valid obtain m where m: "merge_segments (segs ! i) (segs ! Suc i) = Inr m"
    and "valid_segment m"
    using merge_segments_valid by blast
  with ix obtain u where u: "create_utterance_unit fsub uuid4 calls m spk units ix = Inr (u, Suc calls)"
    using create_utterance_unit_valid by blast
  from ending have "\<not> (is_filler_only (seg_text (segs ! i)) \<and> units \<noteq> [])"
    by (simp add: incomplete_ending_not_filler)
  moreover from gap have "is_short_pause (fsub (seg_start_time (segs ! Suc i)) (seg_end_time (segs ! i)))"
    by (simp add: is_short_pause_def PAUSE_THRESHOLD_SHORT_def)
  ultimately have body: "loop_body fsub uuid4 segs spk (units, ix, i, calls)
      = Inr (units @ [u], ix + 1, i + 2, Suc calls)"
    using nxt nofill ending m u by (simp add: loop_body_merge)
  from nxt have "i < length segs"
    by simp
  from structure_loop_step [OF this body] body m u show ?thesis
    by (intro exI [of _ u]) (simp add: create_utterance_unit_fields merge_segments_fields)
qed

text \<open>The example of the specification: two segments at 0.0--1.0 and 1.3--2.0 give one unit
  from 0.0 to 2.0.\<close>

theorem incomplete_ending_merge_witness:
  "has_incomplete_ending kyou_wa_hareta_node \<and> \<not> is_filler_only dekakemashita \<and>
   (1.3 - 1 :: rat) < 0.7 \<and>
   structure_asr (-) of_nat (sample_result sample_pair) speaker_0 =
     Inr [sample_unit 0 (kyou_wa_hareta_node @ [0x20] @ dekakemashita) 0 2 0 ''SHORT'']"
  using incomplete_ending_merge_step [of 0 sample_pair 0 "(-)" of_nat speaker_0 "[]" 0]
  by (simp add: sample_eval)

text \<open>The other way round: where the gap that the source computes is not below 0.7, the
  segment with the incomplete ending becomes a unit of its own, and the next segment is left
  for the next pass. So the merge follows the rounded gap in both directions.\<close>

lemma incomplete_ending_long_gap:
  assumes cur: "i < length segs" and valid: "valid_segment (segs ! i)" and ix: "0 \<le> ix"
    and ending: "has_incomplete_ending (seg_text (segs ! i))"
    and gap: "\<not> fsub (seg_start_time (segs ! Suc i)) (seg_end_time (segs ! i)) < 0.7"
  shows "\<exists>u. loop_body fsub uuid4 segs spk (units, ix, i, calls)
         = Inr (units @ [u], ix + 1, Suc i, Suc calls) \<and>
     utt_text u = seg_text (segs ! i) \<and> start_time u = seg_start_time (segs ! i) \<and>
     end_time u = seg_end_time (segs ! i)"
proof -
  from valid ix obtain u
    where u: "create_utterance_unit fsub uuid4 calls (segs ! i) spk units ix = Inr (u, Suc calls)"
    using create_utterance_unit_valid by blast
  from ending have no_absorb: "\<not> (is_filler_only (seg_text (segs ! i)) \<and> units \<noteq> [])"
    by (simp add: incomplete_ending_not_filler)
  from gap have no_merge: "\<not> (Suc i < length segs \<and>
      \<not> is_filler_only (seg_text (segs ! Suc i)) \<and>
      has_incomplete_ending (seg_text (segs ! i)) \<and>
      is_short_pause (fsub (seg_start_time (segs ! Suc i)) (seg_end_time (segs ! i))))"
    by (simp add: is_short_pause_def PAUSE_THRESHOLD_SHORT_def)
  from loop_body_normal [of segs i units fsub, OF no_absorb no_merge] u
  have "loop_body fsub uuid4 segs spk (units, ix, i, calls)
      = Inr (units @ [u], ix + 1, Suc i, Suc calls)"
    by simp
  with u show ?thesis
    by (intro exI [of _ u]) (simp add: create_utterance_unit_fields)
qed

text \<open>C5 as stated, for every segment \<open>i\<close>, fails: in a chain of two incomplete endings the
  second segment is consumed as the second half of the first merge, and is not merged with the
  third, although it has an incomplete ending, the third is no filler and the gap is 0.25.\<close>

theorem incomplete_ending_chain_counterexample:
  "has_incomplete_ending (seg_text (sample_chain ! 1)) \<and>
   \<not> is_filler_only (seg_text (sample_chain ! 2)) \<and>
   seg_start_time (sample_chain ! 2) - seg_end_time (sample_chain ! 1) < 0.7 \<and>
   structure_asr (-) of_nat (sample_result sample_chain) speaker_0 =
     Inr [sample_unit 0 (kyou_wa_hareta_node @ [0x20] @ samukatta_kedo) 0 2 0 ''SHORT'',
          sample_unit 1 dekakemashita 2.25 3 0.25 ''SHORT'']"
  by (simp add: sample_eval)

section \<open>The pause classifier\<close>

text \<open>C6: the classifier is a total function of the gap with half-open tiers: SHORT
  strictly below 0.7, NORMAL from 0.7 up to but excluding 2.0, LONG from 2.0 on; so
  0.69 is SHORT, 0.7 and 1.99 are NORMAL and 2.0 is LONG.\<close>

theorem classify_pause_level_tiers:
  "(classify_pause_level g = ''SHORT'' \<longleftrightarrow> g < 0.7) \<and>
   (classify_pause_level g = ''NORMAL'' \<longleftrightarrow> 0.7 \<le> g \<and> g < 2.0) \<and>
   (classify_pause_level g = ''LONG'' \<longleftrightarrow> 2.0 \<le> g) \<and>
   classify_pause_level 0.69 = ''SHORT'' \<and>
   classify_pause_level 0.7 = ''NORMAL'' \<and>
   classify_pause_level 1.99 = ''NORMAL'' \<and>
   classify_pause_level 2.0 = ''LONG''"
  by (simp add: classify_pause_level_def PAUSE_THRESHOLD_SHORT_def PAUSE_THRESHOLD_LONG_def)

section \<open>Pauses of the units\<close>

text \<open>C7: on every non-empty list of (valid) segments the first unit returned has
  \<open>pause_before = 0\<close>, and on every list no unit returned has a negative \<open>pause_before\<close>,
  overlapping segments included.\<close>

theorem structure_pause_before:
  assumes "list_all valid_segment (segments asr_result)"
  shows "\<exists>us. structure_asr fsub uuid4 asr_result spk = Inr us \<and>
     (segments asr_result \<noteq> [] \<longrightarrow> us \<noteq> [] \<and> pause_before (hd us) = 0) \<and>
     (\<forall>u \<in> set us. 0 \<le> pause_before u)"
proof -
  define P :: "walk \<Rightarrow> bool" where "P = (\<lambda>(units, ix, i, calls).
     (\<forall>u \<in> set units. 0 \<le> pause_before u) \<and>
     (units \<noteq> [] \<longrightarrow> pause_before (hd units) = 0) \<and> (0 < i \<longrightarrow> units \<noteq> []))"
  have init: "P ([], 0, 0, 0)"
    by (simp add: P_def)
  have step: "P w'" if "P (units, ix, i, calls)" and "i < length (segments asr_result)"
    and "loop_body fsub uuid4 (sort_key seg_start_time (segments asr_result)) spk
           (units, ix, i, calls) = Inr w'" for units ix i calls w'
  proof -
    obtain units' ix' i' calls' where w': "w' = (units', ix', i', calls')"
      by (cases w') auto
    from that(1) loop_body_pause_before [OF that(3) [unfolded w']]
    show ?thesis
      by (simp add: P_def w')
  qed
  have "\<exists>us ix i calls. structure_asr fsub uuid4 asr_result spk = Inr us \<and> P (us, ix, i, calls) \<and>
     length (segments asr_result) \<le> i"
    by (rule structure_asr_rule [of asr_result P fsub uuid4 spk, OF assms init]) (erule (2) step)
  then obtain us ix i calls where "structure_asr fsub uuid4 asr_result spk = Inr us"
    and "P (us, ix, i, calls)" and "length (segments asr_result) \<le> i"
    by blast
  then show ?thesis
    by (auto simp: P_def)
qed

text \<open>Two overlapping segments: the second starts one second before the first ends, and the
  pause before its unit is 0.\<close>

theorem structure_pause_before_witness:
  "list_all valid_segment (segments sample_overlap) \<and>
   structure_asr (-) of_nat sample_overlap speaker_0 =
     Inr [sample_unit 0 konnichiwa 0 2 0 ''SHORT'',
          sample_unit 1 dekakemashita 1 3 0 ''SHORT'']"
  using structure_pause_before [of sample_overlap "(-)" of_nat speaker_0]
  by (simp add: sample_eval)

section \<open>A filler with no unit before it\<close>

text \<open>C8: when the first segment in time is filler-only, the first pass builds a unit of its
  own from it by normal processing (text, start and end of the segment, index 0, pause 0);
  the list returned is not empty and starts with that unit, and when the filler is the only
  segment the list returned is exactly that unit.\<close>

theorem leading_filler_kept:
  assumes valid: "list_all valid_segment (segments asr_result)"
    and first: "sort_key seg_start_time (segments asr_result) = f # rest"
    and filler: "is_filler_only (seg_text f)"
  shows "\<exists>u us. loop_body fsub uuid4 (f # rest) spk ([], 0, 0, 0) = Inr ([u], 1, 1, 1) \<and>
     utterance_id u = uuid4 0 \<and> utt_text u = seg_text f \<and>
     start_time u = seg_start_time f \<and> end_time u = seg_end_time f \<and>
     pause_before u = 0 \<and> index_in_session u = 0 \<and>
     structure_asr fsub uuid4 asr_result spk = Inr us \<and> us \<noteq> [] \<and>
     utterance_id (hd us) = uuid4 0 \<and> start_time (hd us) = seg_start_time f \<and>
     (rest = [] \<longrightarrow> us = [u])"
proof -
  let ?segs = "sort_key seg_start_time (segments asr_result)"
  from valid have "\<forall>s \<in> set ?segs. valid_segment s"
    by (simp add: list_all_iff)
  with first have "valid_segment f"
    by simp
  then have "\<exists>u. create_utterance_unit fsub uuid4 0 f spk [] 0 = Inr (u, Suc 0)"
    by (rule create_utterance_unit_valid) simp
  then obtain u where u: "create_utterance_unit fsub uuid4 0 f spk [] 0 = Inr (u, Suc 0)"
    by blast
  from filler have "\<not> has_incomplete_ending (seg_text f)"
    using incomplete_ending_not_filler by blast
  then have "loop_body fsub uuid4 (f # rest) spk ([], 0, 0, 0) =
      (case create_utterance_unit fsub uuid4 0 ((f # rest) ! 0) spk [] 0 of
         Inl e \<Rightarrow> Inl e
       | Inr (u, c) \<Rightarrow> Inr ([] @ [u], 0 + 1, Suc 0, c))"
    by (intro loop_body_normal) simp_all
  with u have body: "loop_body fsub uuid4 (f # rest) spk ([], 0, 0, 0) = Inr ([u], 1, 1, 1)"
    by simp
  define P :: "walk \<Rightarrow> bool" where "P = (\<lambda>(units, ix, i, calls).
     (units = [] \<and> i = 0 \<and> calls = 0) \<or>
     (units \<noteq> [] \<and> utterance_id (hd units) = uuid4 0 \<and>
      start_time (hd units) = seg_start_time (?segs ! 0)))"
  have init: "P ([], 0, 0, 0)"
    by (simp add: P_def)
  have step: "P w'" if "P (units, ix, i, calls)" and "i < length (segments asr_result)"
    and "loop_body fsub uuid4 ?segs spk (units, ix, i, calls) = Inr w'" for units ix i calls w'
  proof -
    obtain units' ix' i' calls' where w': "w' = (units', ix', i', calls')"
      by (cases w') auto
    from that(1) loop_body_first_unit [OF that(3) [unfolded w']]
    show ?thesis
      by (simp add: P_def w')
  qed
  have "\<exists>us ix i calls. structure_asr fsub uuid4 asr_result spk = Inr us \<and> P (us, ix, i, calls) \<and>
     length (segments asr_result) \<le> i"
    by (rule structure_asr_rule [of asr_result P fsub uuid4 spk, OF valid init]) (erule (2) step)
  then obtain us ix i calls where us: "structure_asr fsub uuid4 asr_result spk = Inr us"
    and P: "P (us, ix, i, calls)" and i: "length (segments asr_result) \<le> i"
    by blast
  from first have "length (segments asr_result) = Suc (length rest)"
    by (metis length_Cons length_sort)
  with P i first have hd: "us \<noteq> [] \<and> utterance_id (hd us) = uuid4 0 \<and>
      start_time (hd us) = seg_start_time f"
    by (auto simp: P_def)
  have single: "us = [u]" if "rest = []"
  proof -
    from first that body have "structure_asr fsub uuid4 asr_result spk = Inr [u]"
      by (simp add: structure_asr_def structure_loop.simps)
    with us show ?thesis
      by simp
  qed
  from body u us hd single show ?thesis
    by (intro exI [of _ u] exI [of _ us]) (simp add: create_utterance_unit_fields)
qed

text \<open>The single filler at 0.0--0.5.\<close>

theorem leading_filler_kept_witness:
  "is_filler_only ano \<and>
   structure_asr (-) of_nat (sample_result [sample_segment 0 0 0.5 ano]) speaker_0 =
     Inr [sample_unit 0 ano 0 0.5 0 ''SHORT'']"
  using leading_filler_kept [of "sample_result [sample_segment 0 0 0.5 ano]"
      "sample_segment 0 0 0.5 ano" "[]" "(-)" of_nat speaker_0]
  by (simp add: sample_eval)

section \<open>The empty input\<close>

text \<open>C9: on the empty segment list, whatever the speaker and the other fields of the
  result, \<open>structure\<close> returns the empty list of units, not an error.\<close>

theorem structure_empty:
  "structure_asr fsub uuid4 (asr_result\<lparr>segments := []\<rparr>) spk = Inr []"
  by (simp add: structure_asr_def)

section \<open>Pause level and pause\<close>

text \<open>C10: every unit returned has the pause level that the classifier gives to its own
  \<open>pause_before\<close>: SHORT exactly when the pause is below 0.7, NORMAL exactly from 0.7 up to
  but excluding 2.0, LONG exactly from 2.0 on; units that absorbed a filler included.\<close>

theorem structure_pause_level:
  assumes "list_all valid_segment (segments asr_result)"
  shows "\<exists>us. structure_asr fsub uuid4 asr_result spk = Inr us \<and>
     (\<forall>u \<in> set us. pause_level u = classify_pause_level (pause_before u) \<and>
        (pause_level u = ''SHORT'' \<longleftrightarrow> pause_before u < 0.7) \<and>
        (pause_level u = ''NORMAL'' \<longleftrightarrow> 0.7 \<le> pause_before u \<and> pause_before u < 2.0) \<and>
        (pause_level u = ''LONG'' \<longleftrightarrow> 2.0 \<le> pause_before u))"
proof -
  define P :: "walk \<Rightarrow> bool" where "P = (\<lambda>(units, ix, i, calls).
     \<forall>u \<in> set units. pause_level u = classify_pause_level (pause_before u))"
  have init: "P ([], 0, 0, 0)"
    by (simp add: P_def)
  have step: "P w'" if "P (units, ix, i, calls)" and "i < length (segments asr_result)"
    and "loop_body fsub uuid4 (sort_key seg_start_time (segments asr_result)) spk
           (units, ix, i, calls) = Inr w'" for units ix i calls w'
  proof -
    obtain units' ix' i' calls' where w': "w' = (units', ix', i', calls')"
      by (cases w') auto
    from that(1) loop_body_pause_level [OF that(3) [unfolded w']]
    show ?thesis
      by (simp add: P_def w')
  qed
  have "\<exists>us ix i calls. structure_asr fsub uuid4 asr_result spk = Inr us \<and> P (us, ix, i, calls) \<and>
     length (segments asr_result) \<le> i"
    by (rule structure_asr_rule [of asr_result P fsub uuid4 spk, OF assms init]) (erule (2) step)
  then obtain us ix i calls where us: "structure_asr fsub uuid4 asr_result spk = Inr us"
    and "P (us, ix, i, calls)"
    by blast
  then have "\<forall>u \<in> set us. pause_level u = classify_pause_level (pause_before u)"
    by (simp add: P_def)
  with us show ?thesis
    by (auto simp: classify_pause_level_def PAUSE_THRESHOLD_SHORT_def
        PAUSE_THRESHOLD_LONG_def)
qed

text \<open>A pause of 2.5 seconds between two segments.\<close>

theorem structure_pause_level_witness:
  "list_all valid_segment (segments sample_long_pause) \<and>
   structure_asr (-) of_nat sample_long_pause speaker_0 =
     Inr [sample_unit 0 kyou_wa_hareta_node 0 1 0 ''SHORT'',
          sample_unit 1 dekakemashita 3.5 4 2.5 ''LONG'']"
  using structure_pause_level [of sample_long_pause "(-)" of_nat speaker_0]
  by (simp add: sample_eval)

end
